theory Spec2Isabelle
  imports Complex_Main "HOL-Library.Multiset"
begin

section \<open>JavaScript numbers\<close>

text \<open>
  The component in \<^verbatim>\<open>App.jsx\<close> computes with JavaScript numbers. They are modelled as
  exact reals together with the not-a-number value: \<open>Num x\<close> is the number \<open>x\<close> and
  \<open>NaN\<close> is what \<^verbatim>\<open>Number("abc")\<close> or \<^verbatim>\<open>Number(undefined)\<close> returns. The rounding error
  of IEEE doubles and the two infinities are not modelled; where IEEE arithmetic gives an
  infinity (a division by zero) the model gives \<open>NaN\<close>. The program only divides by the
  literals 60 and 5 and only takes remainders by 24 and 1440.
\<close>

datatype jsnum = NaN | Num real

fun js_add :: "jsnum \<Rightarrow> jsnum \<Rightarrow> jsnum" where
  "js_add (Num x) (Num y) = Num (x + y)"
| "js_add _ _ = NaN"

fun js_sub :: "jsnum \<Rightarrow> jsnum \<Rightarrow> jsnum" where
  "js_sub (Num x) (Num y) = Num (x - y)"
| "js_sub _ _ = NaN"

fun js_mul :: "jsnum \<Rightarrow> jsnum \<Rightarrow> jsnum" where
  "js_mul (Num x) (Num y) = Num (x * y)"
| "js_mul _ _ = NaN"

fun js_div :: "jsnum \<Rightarrow> jsnum \<Rightarrow> jsnum" where
  "js_div (Num x) (Num y) = (if y = 0 then NaN else Num (x / y))"
| "js_div _ _ = NaN"

text \<open>Rounding towards zero, as the remainder operator \<^verbatim>\<open>%\<close> of JavaScript uses it.\<close>

definition trunc :: "real \<Rightarrow> int" where
  "trunc z = (if 0 \<le> z then \<lfloor>z\<rfloor> else \<lceil>z\<rceil>)"

text \<open>\<^verbatim>\<open>x % y\<close>: the remainder has the sign of the dividend; \<^verbatim>\<open>x % 0\<close> is NaN.\<close>

fun js_mod :: "jsnum \<Rightarrow> jsnum \<Rightarrow> jsnum" where
  "js_mod (Num x) (Num y) = (if y = 0 then NaN else Num (x - y * of_int (trunc (x / y))))"
| "js_mod _ _ = NaN"

text \<open>The comparisons: every comparison with NaN is false.\<close>

fun js_lt :: "jsnum \<Rightarrow> jsnum \<Rightarrow> bool" where
  "js_lt (Num x) (Num y) = (x < y)"
| "js_lt _ _ = False"

fun js_le :: "jsnum \<Rightarrow> jsnum \<Rightarrow> bool" where
  "js_le (Num x) (Num y) = (x \<le> y)"
| "js_le _ _ = False"

fun js_gt :: "jsnum \<Rightarrow> jsnum \<Rightarrow> bool" where
  "js_gt (Num x) (Num y) = (x > y)"
| "js_gt _ _ = False"

fun js_ge :: "jsnum \<Rightarrow> jsnum \<Rightarrow> bool" where
  "js_ge (Num x) (Num y) = (x \<ge> y)"
| "js_ge _ _ = False"

text \<open>\<^verbatim>\<open>Math.round\<close> rounds to the nearest integer, a half towards plus infinity.\<close>

fun Math_round :: "jsnum \<Rightarrow> jsnum" where
  "Math_round (Num x) = Num (of_int \<lfloor>x + 1 / 2\<rfloor>)"
| "Math_round NaN = NaN"

text \<open>\<^verbatim>\<open>Math.pow\<close>, for the positive bases the program uses.\<close>

fun Math_pow :: "jsnum \<Rightarrow> jsnum \<Rightarrow> jsnum" where
  "Math_pow (Num b) (Num y) = Num (b powr y)"
| "Math_pow _ _ = NaN"

section \<open>The data model\<close>

text \<open>An entry of the \<^verbatim>\<open>intakes\<close> state: \<^verbatim>\<open>{ time: 6, amount: 100 }\<close>.\<close>

record intake =
  time :: jsnum
  amount :: jsnum

text \<open>A point of the chart data: \<^verbatim>\<open>{ time: ..., caffeine: ... }\<close>.\<close>

record sample =
  time :: jsnum
  caffeine :: jsnum

definition CAFFEINE_HALF_LIFE :: real where
  "CAFFEINE_HALF_LIFE = 5"

definition TOTAL_DURATION :: nat where
  "TOTAL_DURATION = 24"

text \<open>
  \<open>TypeError\<close> is the exception JavaScript throws on reading or writing a property of
  \<^verbatim>\<open>undefined\<close>, which is what indexing an array out of range returns.
\<close>

datatype js_error = TypeError

text \<open>
  The two failures of \<^verbatim>\<open>validateIntakes\<close>, which stores a message with \<^verbatim>\<open>setError\<close> and
  returns \<^verbatim>\<open>false\<close>.
\<close>

datatype validation_error = OutOfRangeTime | OutOfRangeAmount

fun error_message :: "validation_error + unit \<Rightarrow> string" where
  "error_message (Inl OutOfRangeTime) = ''Time must be between 0 and 23.99 hours''"
| "error_message (Inl OutOfRangeAmount) = ''Caffeine amount must be between 1 and 1000 mg''"
| "error_message (Inr ()) = ''''"

section \<open>The operations on the list of intakes\<close>

text \<open>
  \<^verbatim>\<open>addIntake\<close>: \<^verbatim>\<open>intakes[intakes.length - 1]\<close> is \<^verbatim>\<open>undefined\<close> for the empty array, and
  reading its \<^verbatim>\<open>time\<close> throws. The \<^verbatim>\<open>if\<close> of the source assigns the value \<^verbatim>\<open>newTime\<close>
  already has.
\<close>

definition addIntake :: "intake list \<Rightarrow> js_error + intake list" where
  "addIntake intakes =
     (if intakes = [] then Inl TypeError
      else
        let lastIntake = last intakes;
            newTime = js_mod (js_add (intake.time lastIntake) (Num 2)) (Num 24);
            newTime = (if js_le newTime (intake.time lastIntake)
                       then js_mod (js_add (intake.time lastIntake) (Num 2)) (Num 24)
                       else newTime)
        in Inr (intakes @ [\<lparr>intake.time = newTime, amount = Num 100\<rparr>]))"

text \<open>\<^verbatim>\<open>removeIntake\<close>: \<^verbatim>\<open>intakes.filter((_, i) => i !== index)\<close>.\<close>

definition removeIntake :: "intake list \<Rightarrow> int \<Rightarrow> intake list" where
  "removeIntake intakes index =
     map snd (filter (\<lambda>(i, _). int i \<noteq> index) (enumerate 0 intakes))"

text \<open>
  \<^verbatim>\<open>updateIntake\<close>: the argument \<open>v\<close> is the result of \<^verbatim>\<open>Number(value)\<close>, which is NaN
  when the text is not numeric. Out of range, \<^verbatim>\<open>newIntakes[index]\<close> is \<^verbatim>\<open>undefined\<close> and the
  assignment throws.
\<close>

datatype field = Time | Amount

definition updateIntake :: "intake list \<Rightarrow> int \<Rightarrow> field \<Rightarrow> jsnum \<Rightarrow> js_error + intake list" where
  "updateIntake intakes index fld v =
     (if 0 \<le> index \<and> index < int (length intakes)
      then Inr (intakes[nat index :=
             (case fld of
                Time \<Rightarrow> (intakes ! nat index)\<lparr>intake.time := v\<rparr>
              | Amount \<Rightarrow> (intakes ! nat index)\<lparr>amount := v\<rparr>)])
      else Inl TypeError)"

section \<open>Validation\<close>

text \<open>
  \<^verbatim>\<open>validateIntakes\<close>: the loop returns at the first intake that fails a check, the time
  check first. \<open>Inr ()\<close> is the return value \<^verbatim>\<open>true\<close>.
\<close>

fun validateIntakes :: "intake list \<Rightarrow> validation_error + unit" where
  "validateIntakes [] = Inr ()"
| "validateIntakes (intake # rest) =
     (if js_lt (intake.time intake) (Num 0) \<or> js_ge (intake.time intake) (Num 24)
      then Inl OutOfRangeTime
      else if js_le (amount intake) (Num 0) \<or> js_gt (amount intake) (Num 1000)
      then Inl OutOfRangeAmount
      else validateIntakes rest)"

section \<open>The chart data\<close>

text \<open>
  \<^verbatim>\<open>[...intakes].sort((a, b) => a.time - b.time)\<close>. The sort of JavaScript is stable, and a
  comparator result of NaN counts as 0. It is modelled as the stable insertion sort; for
  a comparator that is a consistent order (no NaN among the times) every stable sort
  returns the same array.
\<close>

definition compareFn :: "intake \<Rightarrow> intake \<Rightarrow> jsnum" where
  "compareFn a b = js_sub (intake.time a) (intake.time b)"

definition not_after :: "intake \<Rightarrow> intake \<Rightarrow> bool" where
  "not_after a b = (case compareFn a b of NaN \<Rightarrow> True | Num d \<Rightarrow> d \<le> 0)"

fun insert_intake :: "intake \<Rightarrow> intake list \<Rightarrow> intake list" where
  "insert_intake a [] = [a]"
| "insert_intake a (b # bs) = (if not_after a b then a # b # bs else b # insert_intake a bs)"

definition sort_intakes :: "intake list \<Rightarrow> intake list" where
  "sort_intakes xs = foldr insert_intake xs []"

text \<open>The local constants of the loops of \<^verbatim>\<open>chartData\<close>.\<close>

definition intakeMinute :: "jsnum \<Rightarrow> intake \<Rightarrow> jsnum" where
  "intakeMinute startTime intake =
     Math_round (js_mul (js_mod (js_add (js_sub (intake.time intake) startTime) (Num 24)) (Num 24))
                        (Num 60))"

definition timeSinceIntake :: "jsnum \<Rightarrow> nat \<Rightarrow> jsnum" where
  "timeSinceIntake im minute =
     js_div (js_mod (js_add (js_sub (Num (real minute)) im) (Num (real (TOTAL_DURATION * 60))))
                    (Num (real (TOTAL_DURATION * 60))))
            (Num 60)"

text \<open>
  The term an intake adds to a sample:
  \<^verbatim>\<open>intake.amount * Math.pow(0.5, timeSinceIntake / CAFFEINE_HALF_LIFE)\<close>.
\<close>

definition decay_term :: "intake \<Rightarrow> jsnum \<Rightarrow> jsnum" where
  "decay_term intake tsi =
     js_mul (amount intake) (Math_pow (Num (1 / 2)) (js_div tsi (Num CAFFEINE_HALF_LIFE)))"

text \<open>The body of the inner loop: \<^verbatim>\<open>data[minute].caffeine += ...\<close> under its guard.\<close>

definition add_at_minute :: "intake \<Rightarrow> jsnum \<Rightarrow> nat \<Rightarrow> sample list \<Rightarrow> sample list" where
  "add_at_minute intake im minute data =
     (if js_ge (timeSinceIntake im minute) (Num 0)
      then data[minute := (data ! minute)\<lparr>caffeine :=
             js_add (caffeine (data ! minute)) (decay_term intake (timeSinceIntake im minute))\<rparr>]
      else data)"

text \<open>The body of \<^verbatim>\<open>sortedIntakes.forEach\<close>: the inner loop over the minutes.\<close>

definition add_intake_to :: "jsnum \<Rightarrow> sample list \<Rightarrow> intake \<Rightarrow> sample list" where
  "add_intake_to startTime data intake =
     fold (add_at_minute intake (intakeMinute startTime intake)) [0 ..< TOTAL_DURATION * 60] data"

text \<open>
  \<^verbatim>\<open>chartData\<close>: the empty array when the validation fails; \<^verbatim>\<open>sortedIntakes[0].time\<close> throws
  when there is no intake.
\<close>

definition chartData :: "intake list \<Rightarrow> js_error + sample list" where
  "chartData intakes =
     (case validateIntakes intakes of
        Inl _ \<Rightarrow> Inr []
      | Inr _ \<Rightarrow>
          let sortedIntakes = sort_intakes intakes in
          (case sortedIntakes of
             [] \<Rightarrow> Inl TypeError
           | first # _ \<Rightarrow>
               let startTime = intake.time first;
                   data = map (\<lambda>minute.
                            \<lparr>sample.time = js_mod (js_add startTime (js_div (Num (real minute)) (Num 60)))
                                                 (Num 24),
                             caffeine = Num 0\<rparr>) [0 ..< TOTAL_DURATION * 60]
               in Inr (foldl (add_intake_to startTime) data sortedIntakes)))"

text \<open>
  The memo \<^verbatim>\<open>startTime\<close> of the component, which the axis of the chart uses: the time of
  the first intake of the sorted array.
\<close>

definition startTime :: "intake list \<Rightarrow> js_error + jsnum" where
  "startTime intakes =
     (case sort_intakes intakes of
        [] \<Rightarrow> Inl TypeError
      | first # _ \<Rightarrow> Inr (intake.time first))"

section \<open>Notions used to state the properties\<close>

text \<open>The caffeine level of the sample at an index of a result, when there is one.\<close>

definition level_at :: "js_error + sample list \<Rightarrow> nat \<Rightarrow> jsnum option" where
  "level_at r k =
     (case r of
        Inl _ \<Rightarrow> None
      | Inr data \<Rightarrow> if k < length data then Some (caffeine (data ! k)) else None)"

definition time_at :: "js_error + sample list \<Rightarrow> nat \<Rightarrow> jsnum option" where
  "time_at r k =
     (case r of
        Inl _ \<Rightarrow> None
      | Inr data \<Rightarrow> if k < length data then Some (sample.time (data ! k)) else None)"

text \<open>The invariant of an intake: a time in \<open>[0, 24)\<close> and an amount in \<open>(0, 1000]\<close>.\<close>

definition valid_intake :: "intake \<Rightarrow> bool" where
  "valid_intake e =
     (case (intake.time e, amount e) of
        (Num t, Num a) \<Rightarrow> 0 \<le> t \<and> t < 24 \<and> 0 < a \<and> a \<le> 1000
      | _ \<Rightarrow> False)"

text \<open>The real numbers in the fields of an intake whose fields are not NaN.\<close>

definition time_val :: "intake \<Rightarrow> real" where
  "time_val e = (case intake.time e of Num t \<Rightarrow> t | NaN \<Rightarrow> 0)"

definition amount_val :: "intake \<Rightarrow> real" where
  "amount_val e = (case amount e of Num a \<Rightarrow> a | NaN \<Rightarrow> 0)"

text \<open>
  For an intake at or after the start \<open>s\<close> of the window: its minute in the window, and the
  minutes elapsed since it at a step of the window, wrapped at the end of the window.
\<close>

definition minute_of :: "real \<Rightarrow> intake \<Rightarrow> nat" where
  "minute_of s e = nat \<lfloor>(time_val e - s) * 60 + 1 / 2\<rfloor>"

definition elapsed :: "nat \<Rightarrow> nat \<Rightarrow> nat" where
  "elapsed m k = (k + 1440 - m) mod 1440"

text \<open>A time of day past midnight, wrapped into the day.\<close>

definition wrap24 :: "real \<Rightarrow> real" where
  "wrap24 u = (if u < 24 then u else u - 24)"

text \<open>
  The term that an intake of a window starting at \<open>s\<close> adds to the sample of step \<open>k\<close>:
  its amount halved once per five hours (300 minutes) elapsed.
\<close>

definition contribution :: "real \<Rightarrow> intake \<Rightarrow> nat \<Rightarrow> real" where
  "contribution s e k = amount_val e * (1 / 2) powr (real (elapsed (minute_of s e) k) / 300)"

text \<open>One step of the inner loop, as a function on the sample it updates.\<close>

definition step_at :: "intake \<Rightarrow> jsnum \<Rightarrow> nat \<Rightarrow> sample \<Rightarrow> sample" where
  "step_at e im k p =
     (if js_ge (timeSinceIntake im k) (Num 0)
      then p\<lparr>caffeine := js_add (caffeine p) (decay_term e (timeSinceIntake im k))\<rparr>
      else p)"

section \<open>Validation: the range checks\<close>

text \<open>
  C1. A list in which a time or an amount is NaN should fail the validation with the
  error of that field. The comparisons of \<^verbatim>\<open>validateIntakes\<close> are all false on NaN, so
  the intake with a NaN time that \<^verbatim>\<open>updateIntake\<close> stores for a non-numeric text passes
  both checks, and so does an intake with a NaN amount: the validation accepts them.
\<close>

theorem validateIntakes_accepts_NaN:
  "updateIntake [\<lparr>intake.time = Num 6, amount = Num 100\<rparr>] 0 Time NaN
     = Inr [\<lparr>intake.time = NaN, amount = Num 100\<rparr>]
   \<and> validateIntakes [\<lparr>intake.time = NaN, amount = Num 100\<rparr>] = Inr ()
   \<and> validateIntakes [\<lparr>intake.time = Num 6, amount = NaN\<rparr>] = Inr ()"
  by (simp add: updateIntake_def)

text \<open>
  C4. The bounds of the two ranges: a time of 24 or of -0.01 is rejected whatever the
  amount, an amount of 0 or of 1000.01 is rejected at any time of the range, and the
  times 0 and 23.99 and the amounts 1 and 1000 are accepted when the other field is in
  its range.
\<close>

theorem validateIntakes_boundaries:
  "(\<forall>a. validateIntakes [\<lparr>intake.time = Num 24, amount = a\<rparr>] = Inl OutOfRangeTime)
   \<and> (\<forall>a. validateIntakes [\<lparr>intake.time = Num (- 0.01), amount = a\<rparr>] = Inl OutOfRangeTime)
   \<and> (\<forall>t. 0 \<le> t \<and> t < 24 \<longrightarrow>
         validateIntakes [\<lparr>intake.time = Num t, amount = Num 0\<rparr>] = Inl OutOfRangeAmount)
   \<and> (\<forall>t. 0 \<le> t \<and> t < 24 \<longrightarrow>
         validateIntakes [\<lparr>intake.time = Num t, amount = Num 1000.01\<rparr>] = Inl OutOfRangeAmount)
   \<and> (\<forall>a. 0 < a \<and> a \<le> 1000 \<longrightarrow>
         validateIntakes [\<lparr>intake.time = Num 0, amount = Num a\<rparr>] = Inr ())
   \<and> (\<forall>a. 0 < a \<and> a \<le> 1000 \<longrightarrow>
         validateIntakes [\<lparr>intake.time = Num 23.99, amount = Num a\<rparr>] = Inr ())
   \<and> (\<forall>t. 0 \<le> t \<and> t < 24 \<longrightarrow>
         validateIntakes [\<lparr>intake.time = Num t, amount = Num 1\<rparr>] = Inr ())
   \<and> (\<forall>t. 0 \<le> t \<and> t < 24 \<longrightarrow>
         validateIntakes [\<lparr>intake.time = Num t, amount = Num 1000\<rparr>] = Inr ())"
  by simp

theorem validateIntakes_boundaries_witness:
  "validateIntakes [\<lparr>intake.time = Num 24, amount = Num 100\<rparr>] = Inl OutOfRangeTime
   \<and> validateIntakes [\<lparr>intake.time = Num (- 0.01), amount = Num 100\<rparr>] = Inl OutOfRangeTime
   \<and> validateIntakes [\<lparr>intake.time = Num 6, amount = Num 0\<rparr>] = Inl OutOfRangeAmount
   \<and> validateIntakes [\<lparr>intake.time = Num 6, amount = Num 1000.01\<rparr>] = Inl OutOfRangeAmount
   \<and> validateIntakes [\<lparr>intake.time = Num 0, amount = Num 100\<rparr>] = Inr ()
   \<and> validateIntakes [\<lparr>intake.time = Num 23.99, amount = Num 100\<rparr>] = Inr ()
   \<and> validateIntakes [\<lparr>intake.time = Num 6, amount = Num 1\<rparr>] = Inr ()
   \<and> validateIntakes [\<lparr>intake.time = Num 6, amount = Num 1000\<rparr>] = Inr ()"
proof -
  have "(0::real) \<le> 6 \<and> (6::real) < 24" and "(0::real) < 100 \<and> (100::real) \<le> 1000"
    by simp_all
  with validateIntakes_boundaries show ?thesis by blast
qed

text \<open>
  C8. The validation should report the first intake of the list that breaks the invariant,
  and its time before its amount. An intake with a NaN time breaks the invariant in its
  time, but the comparisons of the time check are false on NaN: for the intake with a NaN
  time and the amount 0, which two calls of \<^verbatim>\<open>updateIntake\<close> store, the validation
  reports the amount, and in a list it passes over an intake with a NaN time and reports
  the amount of a later one. (Lemma \<open>validateIntakes_first_invalid_number\<close> below shows
  that the order is as it should be when the fields are numbers.)
\<close>

theorem validateIntakes_NaN_time_passed_over:
  "updateIntake [\<lparr>intake.time = NaN, amount = Num 100\<rparr>] 0 Amount (Num 0)
     = Inr [\<lparr>intake.time = NaN, amount = Num 0\<rparr>]
   \<and> \<not> valid_intake \<lparr>intake.time = NaN, amount = Num 0\<rparr>
   \<and> validateIntakes [\<lparr>intake.time = NaN, amount = Num 0\<rparr>] = Inl OutOfRangeAmount
   \<and> \<not> valid_intake \<lparr>intake.time = NaN, amount = Num 100\<rparr>
   \<and> validateIntakes [\<lparr>intake.time = NaN, amount = Num 100\<rparr>,
                       \<lparr>intake.time = Num 6, amount = Num 0\<rparr>] = Inl OutOfRangeAmount"
  by (simp add: updateIntake_def valid_intake_def)

section \<open>Adding and removing intakes\<close>

lemma js_mod_plus_two:
  assumes "0 \<le> t" and "t < 24"
  shows "js_mod (Num (t + 2)) (Num 24) = Num (wrap24 (t + 2))"
proof -
  have "\<lfloor>(t + 2) / 24\<rfloor> = (if t + 2 < 24 then 0 else 1)"
    using assms by (auto simp: floor_eq_iff)
  then show ?thesis
    using assms by (auto simp: trunc_def wrap24_def)
qed

text \<open>
  C9. On a list that is not empty, \<^verbatim>\<open>addIntake\<close> returns the intakes it was given, in
  their order, followed by one new intake of amount 100 whose time is the remainder
  modulo 24 of the last time plus 2; for a last time \<open>t\<close> in \<open>[0, 24)\<close> that is \<open>t + 2\<close>,
  less 24 when it passes midnight.
\<close>

theorem addIntake_appends:
  assumes "xs \<noteq> []"
  shows "addIntake xs =
           Inr (xs @ [\<lparr>intake.time = js_mod (js_add (intake.time (last xs)) (Num 2)) (Num 24),
                       amount = Num 100\<rparr>])
         \<and> (\<forall>t. intake.time (last xs) = Num t \<and> 0 \<le> t \<and> t < 24 \<longrightarrow>
               addIntake xs = Inr (xs @ [\<lparr>intake.time = Num (wrap24 (t + 2)), amount = Num 100\<rparr>]))"
proof -
  have appended: "addIntake xs =
      Inr (xs @ [\<lparr>intake.time = js_mod (js_add (intake.time (last xs)) (Num 2)) (Num 24),
                  amount = Num 100\<rparr>])"
    using assms by (simp add: addIntake_def Let_def)
  have "addIntake xs = Inr (xs @ [\<lparr>intake.time = Num (wrap24 (t + 2)), amount = Num 100\<rparr>])"
    if "intake.time (last xs) = Num t \<and> 0 \<le> t \<and> t < 24" for t
    using that appended by (simp del: js_mod.simps add: js_mod_plus_two)
  with appended show ?thesis by blast
qed

theorem addIntake_appends_witness:
  "addIntake [\<lparr>intake.time = Num 6, amount = Num 75\<rparr>, \<lparr>intake.time = Num 23, amount = Num 50\<rparr>]
     = Inr [\<lparr>intake.time = Num 6, amount = Num 75\<rparr>, \<lparr>intake.time = Num 23, amount = Num 50\<rparr>,
            \<lparr>intake.time = Num 1, amount = Num 100\<rparr>]"
  using addIntake_appends
    [of "[\<lparr>intake.time = Num 6, amount = Num 75\<rparr>, \<lparr>intake.time = Num 23, amount = Num 50\<rparr>]"]
  by (simp add: wrap24_def trunc_def)

lemma filter_enumerate_other:
  "map snd (filter (\<lambda>(i, _). i \<noteq> j) (enumerate n xs)) =
     (if n \<le> j \<and> j < n + length xs
      then take (j - n) xs @ drop (Suc (j - n)) xs else xs)"
proof (induction xs arbitrary: n)
  case Nil
  then show ?case by simp
next
  case (Cons x xs)
  show ?case
  proof (cases "n = j")
    case True
    then show ?thesis using Cons.IH [of "Suc j"] by simp
  next
    case False
    have "Suc n \<le> j \<Longrightarrow> Suc (j - Suc n) = j - n" by simp
    with False show ?thesis
      by (auto simp: Cons.IH take_Cons' drop_Cons')
  qed
qed

lemma filter_enumerate_outside:
  assumes "index < 0 \<or> int (length xs) \<le> index"
  shows "map snd (filter (\<lambda>(i, _). int i \<noteq> index) (enumerate 0 xs)) = xs"
proof -
  have "filter (\<lambda>(i, _). int i \<noteq> index) (enumerate 0 xs) = enumerate 0 xs"
    using assms by (intro filter_True) (auto simp: in_set_enumerate_eq)
  then show ?thesis by simp
qed

text \<open>
  C10. \<^verbatim>\<open>removeIntake\<close> at an index that is no position of the list (negative, or the
  length or more) returns the list as it is; at a position of the list it returns the
  intakes before it followed by the intakes after it, in their order.
\<close>

theorem removeIntake_spec:
  "(index < 0 \<or> int (length xs) \<le> index \<longrightarrow> removeIntake xs index = xs) \<and>
   (0 \<le> index \<and> index < int (length xs) \<longrightarrow>
      removeIntake xs index = take (nat index) xs @ drop (Suc (nat index)) xs)"
proof (intro conjI impI)
  assume "index < 0 \<or> int (length xs) \<le> index"
  then show "removeIntake xs index = xs"
    by (simp add: removeIntake_def filter_enumerate_outside)
next
  assume inside: "0 \<le> index \<and> index < int (length xs)"
  then obtain j where j: "index = int j" "j < length xs"
    by (metis nat_less_iff nat_eq_iff2)
  then show "removeIntake xs index = take (nat index) xs @ drop (Suc (nat index)) xs"
    unfolding removeIntake_def using filter_enumerate_other [of j 0 xs] by simp
qed

theorem removeIntake_spec_witness:
  "removeIntake [\<lparr>intake.time = Num 6, amount = Num 1\<rparr>, \<lparr>intake.time = Num 8, amount = Num 2\<rparr>,
                 \<lparr>intake.time = Num 10, amount = Num 3\<rparr>] 1
     = [\<lparr>intake.time = Num 6, amount = Num 1\<rparr>, \<lparr>intake.time = Num 10, amount = Num 3\<rparr>]
   \<and> removeIntake [\<lparr>intake.time = Num 6, amount = Num 1\<rparr>] 1 = [\<lparr>intake.time = Num 6, amount = Num 1\<rparr>]
   \<and> removeIntake [\<lparr>intake.time = Num 6, amount = Num 1\<rparr>] (- 1) = [\<lparr>intake.time = Num 6, amount = Num 1\<rparr>]"
  using removeIntake_spec
    [of 1 "[\<lparr>intake.time = Num 6, amount = Num 1\<rparr>, \<lparr>intake.time = Num 8, amount = Num 2\<rparr>,
            \<lparr>intake.time = Num 10, amount = Num 3\<rparr>]"]
    removeIntake_spec [of 1 "[\<lparr>intake.time = Num 6, amount = Num 1\<rparr>]"]
    removeIntake_spec [of "- 1" "[\<lparr>intake.time = Num 6, amount = Num 1\<rparr>]"]
  by simp

section \<open>The chart data\<close>

text \<open>
  C3. The validation accepts the empty list, which \<^verbatim>\<open>removeIntake\<close> returns for the one
  intake of the initial state, and the chart data should then be a series of zeros. On the
  empty list \<^verbatim>\<open>chartData\<close> passes the validation and then reads the time of the first
  sorted intake, which is not there: it throws and returns no series.
\<close>

theorem chartData_empty_throws:
  "removeIntake [\<lparr>intake.time = Num 6, amount = Num 100\<rparr>] 0 = []
   \<and> validateIntakes [] = Inr ()
   \<and> chartData [] = Inl TypeError"
  by (simp add: removeIntake_def chartData_def sort_intakes_def)

lemma fold_update_all:
  "m \<le> length d \<Longrightarrow>
   fold (\<lambda>i d. d[i := g i (d ! i)]) [0 ..< m] d = map (\<lambda>i. g i (d ! i)) [0 ..< m] @ drop m d"
proof (induction m)
  case 0
  then show ?case by simp
next
  case (Suc m)
  then have m: "m < length d" by simp
  let ?pre = "map (\<lambda>i. g i (d ! i)) [0 ..< m]"
  have IH: "fold (\<lambda>i d. d[i := g i (d ! i)]) [0 ..< m] d = ?pre @ drop m d"
    using Suc by simp
  have split: "drop m d = d ! m # drop (Suc m) d"
    using m by (simp add: Cons_nth_drop_Suc)
  have len: "length ?pre = m" by simp
  have "(?pre @ drop m d)[m := g m ((?pre @ drop m d) ! m)] = ?pre @ g m (d ! m) # drop (Suc m) d"
    using len by (simp add: split list_update_append nth_append)
  then show ?case by (simp add: IH)
qed

lemma add_at_minute_step: "add_at_minute e im = (\<lambda>k d. d[k := step_at e im k (d ! k)])"
  by (rule ext, rule ext) (simp add: add_at_minute_def step_at_def)

lemma add_intake_to_map:
  "length d = 1440 \<Longrightarrow>
   add_intake_to st d e = map (\<lambda>k. step_at e (intakeMinute st e) k (d ! k)) [0 ..< 1440]"
  unfolding add_intake_to_def add_at_minute_step TOTAL_DURATION_def
  using fold_update_all [of 1440 d "step_at e (intakeMinute st e)"] by simp

lemma valid_intakeD:
  assumes "valid_intake e"
  shows "intake.time e = Num (time_val e)" and "amount e = Num (amount_val e)"
    and "0 \<le> time_val e" and "time_val e < 24" and "0 < amount_val e" and "amount_val e \<le> 1000"
  using assms by (auto simp: valid_intake_def time_val_def amount_val_def split: jsnum.splits)

lemma validateIntakes_valid: "\<forall>e \<in> set es. valid_intake e \<Longrightarrow> validateIntakes es = Inr ()"
proof (induction es)
  case Nil
  then show ?case by simp
next
  case (Cons x xs)
  then have "valid_intake x" and rest: "validateIntakes xs = Inr ()" by simp_all
  from valid_intakeD [OF this(1)] rest show ?case by simp
qed

lemma validateIntakes_valid_prefix:
  "\<forall>p \<in> set pre. valid_intake p \<Longrightarrow> validateIntakes (pre @ rest) = validateIntakes rest"
proof (induction pre)
  case Nil
  then show ?case by simp
next
  case (Cons x xs)
  then have "valid_intake x" and rest: "validateIntakes (xs @ rest) = validateIntakes rest"
    by simp_all
  from valid_intakeD [OF this(1)] rest show ?case by simp
qed

text \<open>
  When the fields of the first intake that breaks the invariant are numbers, the
  validation reports that intake, whatever follows it, and its time before its amount.
\<close>

lemma validateIntakes_first_invalid_number:
  assumes "\<forall>p \<in> set pre. valid_intake p"
    and "\<not> valid_intake \<lparr>intake.time = Num t, amount = Num a\<rparr>"
  shows "validateIntakes (pre @ \<lparr>intake.time = Num t, amount = Num a\<rparr> # post) =
           Inl (if 0 \<le> t \<and> t < 24 then OutOfRangeAmount else OutOfRangeTime)"
  using assms(2) by (auto simp: validateIntakes_valid_prefix [OF assms(1)] valid_intake_def)

lemma not_after_valid:
  "valid_intake a \<Longrightarrow> valid_intake b \<Longrightarrow> not_after a b \<longleftrightarrow> time_val a \<le> time_val b"
  by (simp add: not_after_def compareFn_def valid_intakeD)

lemma insert_intake_insort:
  "valid_intake a \<Longrightarrow> \<forall>b \<in> set bs. valid_intake b \<Longrightarrow>
   insert_intake a bs = insort_key time_val a bs"
  by (induction bs) (simp_all add: not_after_valid)

lemma sort_intakes_sort_key:
  "\<forall>e \<in> set es. valid_intake e \<Longrightarrow> sort_intakes es = sort_key time_val es"
proof (induction es)
  case Nil
  then show ?case by (simp add: sort_intakes_def)
next
  case (Cons x xs)
  then have "sort_intakes xs = sort_key time_val xs" by simp
  moreover have "sort_intakes (x # xs) = insert_intake x (sort_intakes xs)"
    by (simp add: sort_intakes_def)
  ultimately show ?case
    using Cons.prems by (simp add: insert_intake_insort)
qed

lemma sort_key_first:
  assumes "es \<noteq> []"
  obtains f rest where "sort_key time_val es = f # rest" and "f \<in> set es"
    and "\<forall>e \<in> set es. time_val f \<le> time_val e"
proof -
  have "sort_key time_val es \<noteq> []"
    using assms by (metis length_sort length_0_conv)
  then obtain f rest where fr: "sort_key time_val es = f # rest"
    by (cases "sort_key time_val es") auto
  have "sorted (map time_val (f # rest))"
    using sorted_sort_key [of time_val es] by (simp only: fr)
  moreover have "set (f # rest) = set es"
    using set_sort [of time_val es] by (simp only: fr)
  ultimately have "f \<in> set es" and "\<forall>e \<in> set es. time_val f \<le> time_val e"
    by auto
  with fr that show ?thesis by blast
qed

lemma intakeMinute_valid:
  assumes "valid_intake e" and "0 \<le> s" and "s \<le> time_val e"
  shows "intakeMinute (Num s) e = Num (real (minute_of s e))" and "minute_of s e \<le> 1440"
proof -
  let ?t = "time_val e"
  have t: "?t < 24" "intake.time e = Num ?t" using assms by (simp_all add: valid_intakeD)
  have "\<lfloor>(?t - s + 24) / 24\<rfloor> = 1"
    using assms t by (simp add: floor_eq_iff)
  then have "js_mod (Num (?t - s + 24)) (Num 24) = Num (?t - s)"
    using assms t by (simp add: trunc_def)
  then have im: "intakeMinute (Num s) e = Num (of_int \<lfloor>(?t - s) * 60 + 1 / 2\<rfloor>)"
    by (simp add: intakeMinute_def t del: js_mod.simps)
  have nonneg: "0 \<le> \<lfloor>(?t - s) * 60 + 1 / 2\<rfloor>"
    using assms by simp
  show "intakeMinute (Num s) e = Num (real (minute_of s e))"
    using im nonneg by (simp add: minute_of_def)
  define z where "z = \<lfloor>(?t - s) * 60 + 1 / 2\<rfloor>"
  have "(?t - s) * 60 + 1 / 2 < 1441" using assms t by simp
  then have "z < 1441" unfolding z_def by (simp add: floor_less_iff)
  then have "nat z \<le> 1440" by linarith
  then show "minute_of s e \<le> 1440" by (simp only: minute_of_def z_def)
qed

lemma js_mod_nat:
  "0 < d \<Longrightarrow> js_mod (Num (real n)) (Num (real d)) = Num (real (n mod d))"
proof -
  assume d: "0 < d"
  have "\<lfloor>real n / real d\<rfloor> = int (n div d)"
    by (simp add: floor_divide_of_nat_eq)
  moreover have "real n - real d * real (n div d) = real (n mod d)"
    by (metis add_diff_cancel_left' mult_div_mod_eq of_nat_add of_nat_mult)
  ultimately show ?thesis using d by (simp add: trunc_def)
qed

lemma timeSinceIntake_valid:
  assumes "m \<le> 1440"
  shows "timeSinceIntake (Num (real m)) k = Num (real (elapsed m k) / 60)"
proof -
  have "real k - real m + 1440 = real (k + 1440 - m)"
    using assms by simp
  then have "js_add (js_sub (Num (real k)) (Num (real m))) (Num (real (1440::nat))) = Num (real (k + 1440 - m))"
    by simp
  then show ?thesis
    using js_mod_nat [of 1440 "k + 1440 - m"]
    by (simp add: timeSinceIntake_def TOTAL_DURATION_def elapsed_def del: js_mod.simps)
qed

lemma step_at_valid:
  assumes "valid_intake e" and "0 \<le> s" and "s \<le> time_val e"
  shows "step_at e (intakeMinute (Num s) e) k p =
           p\<lparr>caffeine := js_add (caffeine p) (Num (contribution s e k))\<rparr>"
  using assms intakeMinute_valid [OF assms]
  by (simp add: step_at_def timeSinceIntake_valid decay_term_def CAFFEINE_HALF_LIFE_def
      contribution_def valid_intakeD)

lemma add_intake_to_valid:
  assumes "valid_intake e" and "0 \<le> s" and "s \<le> time_val e"
  shows "add_intake_to (Num s)
           (map (\<lambda>k. \<lparr>sample.time = tm k, caffeine = Num (c k)\<rparr>) [0 ..< 1440]) e =
         map (\<lambda>k. \<lparr>sample.time = tm k, caffeine = Num (c k + contribution s e k)\<rparr>) [0 ..< 1440]"
proof -
  let ?d = "map (\<lambda>k. \<lparr>sample.time = tm k, caffeine = Num (c k)\<rparr>) [0 ..< 1440]"
  have "add_intake_to (Num s) ?d e =
          map (\<lambda>k. step_at e (intakeMinute (Num s) e) k (?d ! k)) [0 ..< 1440]"
    by (rule add_intake_to_map) simp
  also have "\<dots> = map (\<lambda>k. \<lparr>sample.time = tm k, caffeine = Num (c k + contribution s e k)\<rparr>) [0 ..< 1440]"
    by (rule map_cong [OF refl]) (simp add: step_at_valid [OF assms])
  finally show ?thesis .
qed

lemma foldl_add_intake_to_valid:
  assumes "\<forall>e \<in> set xs. valid_intake e \<and> s \<le> time_val e" and "0 \<le> s"
  shows "foldl (add_intake_to (Num s))
           (map (\<lambda>k. \<lparr>sample.time = tm k, caffeine = Num (c k)\<rparr>) [0 ..< 1440]) xs =
         map (\<lambda>k. \<lparr>sample.time = tm k,
                    caffeine = Num (c k + (\<Sum>e\<leftarrow>xs. contribution s e k))\<rparr>) [0 ..< 1440]"
  using assms(1)
proof (induction xs arbitrary: c)
  case Nil
  then show ?case by simp
next
  case (Cons x xs)
  then have x: "valid_intake x" "s \<le> time_val x"
    and xs: "\<forall>e \<in> set xs. valid_intake e \<and> s \<le> time_val e" by simp_all
  show ?case
    by (simp add: add_intake_to_valid [OF x(1) assms(2) x(2)] Cons.IH [OF xs] add.assoc)
qed

lemma sample_time_wrap:
  assumes "0 \<le> s" and "s < 24" and "k < 1440"
  shows "js_mod (js_add (Num s) (js_div (Num (real k)) (Num 60))) (Num 24)
           = Num (wrap24 (s + real k / 60))"
proof -
  let ?u = "s + real k / 60"
  have u: "0 \<le> ?u" "?u < 48" using assms by simp_all
  have "\<lfloor>?u / 24\<rfloor> = (if ?u < 24 then 0 else 1)"
    using u by (auto simp: floor_eq_iff)
  then have "js_mod (Num ?u) (Num 24) = Num (wrap24 ?u)"
    using u by (auto simp: trunc_def wrap24_def)
  then show ?thesis by (simp del: js_mod.simps)
qed

lemma sum_list_sort_key:
  "(\<Sum>e\<leftarrow>sort_key g xs. f e) = (\<Sum>e\<leftarrow>xs. (f e :: real))"
proof -
  have "mset (map f (sort_key g xs)) = mset (map f xs)"
    by simp
  then show ?thesis
    by (metis sum_mset_sum_list)
qed

lemma chartData_valid:
  assumes "\<forall>e \<in> set es. valid_intake e" and "es \<noteq> []"
  obtains s where "startTime es = Inr (Num s)" and "s \<in> time_val ` set es"
    and "\<forall>e \<in> set es. s \<le> time_val e" and "0 \<le> s" and "s < 24"
    and "chartData es =
           Inr (map (\<lambda>k. \<lparr>sample.time = Num (wrap24 (s + real k / 60)),
                            caffeine = Num (\<Sum>e\<leftarrow>es. contribution s e k)\<rparr>) [0 ..< 1440])"
proof -
  obtain f rest where fr: "sort_key time_val es = f # rest" and f: "f \<in> set es"
    and least: "\<forall>e \<in> set es. time_val f \<le> time_val e"
    using sort_key_first [OF assms(2)] by blast
  let ?s = "time_val f"
  have vf: "valid_intake f" using assms f by blast
  have s: "0 \<le> ?s" "?s < 24" and tf: "intake.time f = Num ?s"
    using valid_intakeD [OF vf] by simp_all
  have sorted: "sort_intakes es = f # rest"
    using assms fr by (simp add: sort_intakes_sort_key)
  have start: "startTime es = Inr (Num ?s)"
    by (simp add: startTime_def sorted tf)
  have all: "\<forall>e \<in> set (f # rest). valid_intake e \<and> ?s \<le> time_val e"
    using assms least set_sort [of time_val es] by (simp only: fr) blast
  have data: "map (\<lambda>minute.
        \<lparr>sample.time = js_mod (js_add (Num ?s) (js_div (Num (real minute)) (Num 60))) (Num 24),
         caffeine = Num 0\<rparr>) [0 ..< 1440]
      = map (\<lambda>k. \<lparr>sample.time = Num (wrap24 (?s + real k / 60)), caffeine = Num 0\<rparr>) [0 ..< 1440]"
    by (rule map_cong [OF refl]) (simp add: sample_time_wrap [OF s] del: js_mod.simps js_add.simps js_div.simps)
  have "chartData es =
      Inr (foldl (add_intake_to (Num ?s))
             (map (\<lambda>k. \<lparr>sample.time = Num (wrap24 (?s + real k / 60)), caffeine = Num 0\<rparr>) [0 ..< 1440])
             (f # rest))"
    unfolding chartData_def
    by (simp add: validateIntakes_valid [OF assms(1)] sorted tf TOTAL_DURATION_def data
        del: js_mod.simps js_add.simps js_div.simps foldl_Cons)
  also have "\<dots> = Inr (map (\<lambda>k. \<lparr>sample.time = Num (wrap24 (?s + real k / 60)),
                    caffeine = Num (0 + (\<Sum>e\<leftarrow>f # rest. contribution ?s e k))\<rparr>) [0 ..< 1440])"
    by (simp only: foldl_add_intake_to_valid [OF all s(1), where c = "\<lambda>_. 0"])
  also have "\<dots> = Inr (map (\<lambda>k. \<lparr>sample.time = Num (wrap24 (?s + real k / 60)),
                    caffeine = Num (\<Sum>e\<leftarrow>es. contribution ?s e k)\<rparr>) [0 ..< 1440])"
    using sum_list_sort_key [of _ time_val es] by (simp only: fr [symmetric]) simp
  finally have "chartData es =
      Inr (map (\<lambda>k. \<lparr>sample.time = Num (wrap24 (?s + real k / 60)),
                      caffeine = Num (\<Sum>e\<leftarrow>es. contribution ?s e k)\<rparr>) [0 ..< 1440])" .
  with start f least s that show ?thesis by blast
qed

lemma chartData_single:
  assumes "valid_intake e"
  shows "chartData [e] =
           Inr (map (\<lambda>k. \<lparr>sample.time = Num (wrap24 (time_val e + real k / 60)),
                            caffeine = Num (amount_val e * (1 / 2) powr (real k / 300))\<rparr>) [0 ..< 1440])"
proof -
  obtain s where s: "s \<in> time_val ` set [e]"
    and cd: "chartData [e] =
           Inr (map (\<lambda>k. \<lparr>sample.time = Num (wrap24 (s + real k / 60)),
                            caffeine = Num (\<Sum>x\<leftarrow>[e]. contribution s x k)\<rparr>) [0 ..< 1440])"
    using chartData_valid [of "[e]"] assms by auto
  have se: "s = time_val e" using s by simp
  have "contribution (time_val e) e k = amount_val e * (1 / 2) powr (real k / 300)"
    if "k < 1440" for k
    using that by (simp add: contribution_def minute_of_def elapsed_def)
  then show ?thesis
    unfolding cd se by (intro arg_cong [where f = Inr] map_cong [OF refl]) simp
qed

text \<open>
  C5. For one valid intake of amount \<open>a\<close> at time \<open>t\<close>, the sample of step 0 is at the
  time \<open>t\<close> of the intake and has level exactly \<open>a\<close>; the sample of step 300, five hours
  later, has level \<open>a / 2\<close>, and the sample of step 600, ten hours later, has level
  \<open>a / 4\<close>. The numbers are exact reals here.
\<close>

theorem chartData_half_life:
  assumes "valid_intake \<lparr>intake.time = Num t, amount = Num a\<rparr>"
  shows "time_at (chartData [\<lparr>intake.time = Num t, amount = Num a\<rparr>]) 0 = Some (Num t)
       \<and> level_at (chartData [\<lparr>intake.time = Num t, amount = Num a\<rparr>]) 0 = Some (Num a)
       \<and> time_at (chartData [\<lparr>intake.time = Num t, amount = Num a\<rparr>]) 300 = Some (Num (wrap24 (t + 5)))
       \<and> level_at (chartData [\<lparr>intake.time = Num t, amount = Num a\<rparr>]) 300 = Some (Num (a / 2))
       \<and> time_at (chartData [\<lparr>intake.time = Num t, amount = Num a\<rparr>]) 600 = Some (Num (wrap24 (t + 10)))
       \<and> level_at (chartData [\<lparr>intake.time = Num t, amount = Num a\<rparr>]) 600 = Some (Num (a / 4))"
proof -
  have "t < 24" using valid_intakeD [OF assms] by (simp add: time_val_def)
  then show ?thesis
    unfolding chartData_single [OF assms]
    by (simp add: level_at_def time_at_def time_val_def amount_val_def wrap24_def powr_numeral
          power2_eq_square del: upt_Suc)
qed

theorem chartData_half_life_witness:
  "valid_intake \<lparr>intake.time = Num 6, amount = Num 100\<rparr>
   \<and> level_at (chartData [\<lparr>intake.time = Num 6, amount = Num 100\<rparr>]) 0 = Some (Num 100)
   \<and> time_at (chartData [\<lparr>intake.time = Num 6, amount = Num 100\<rparr>]) 300 = Some (Num 11)
   \<and> level_at (chartData [\<lparr>intake.time = Num 6, amount = Num 100\<rparr>]) 300 = Some (Num 50)
   \<and> level_at (chartData [\<lparr>intake.time = Num 6, amount = Num 100\<rparr>]) 600 = Some (Num 25)"
  using chartData_half_life [of 6 100] by (simp add: valid_intake_def wrap24_def)

text \<open>
  C6. For a list of valid intakes that is not empty, \<^verbatim>\<open>chartData\<close> returns 1440 samples.
  With \<open>s\<close> the smallest time of the intakes, which is also the memo \<^verbatim>\<open>startTime\<close>, the
  sample of step \<open>k\<close> has the time \<open>s + k / 60\<close> wrapped at 24: the time before wrapping
  lies in \<open>[s, s + 24)\<close> and the wrapped time in \<open>[0, 24)\<close>.
\<close>

theorem chartData_window:
  assumes "\<forall>e \<in> set es. valid_intake e" and "es \<noteq> []"
  shows "\<exists>s data. startTime es = Inr (Num s) \<and> s \<in> time_val ` set es
           \<and> (\<forall>e \<in> set es. s \<le> time_val e)
           \<and> chartData es = Inr data \<and> length data = 1440
           \<and> (\<forall>k < 1440. sample.time (data ! k) = Num (wrap24 (s + real k / 60))
                 \<and> s \<le> s + real k / 60 \<and> s + real k / 60 < s + 24
                 \<and> 0 \<le> wrap24 (s + real k / 60) \<and> wrap24 (s + real k / 60) < 24)"
proof -
  obtain s where s: "startTime es = Inr (Num s)" "s \<in> time_val ` set es"
      "\<forall>e \<in> set es. s \<le> time_val e" "0 \<le> s" "s < 24"
    and cd: "chartData es =
           Inr (map (\<lambda>k. \<lparr>sample.time = Num (wrap24 (s + real k / 60)),
                            caffeine = Num (\<Sum>e\<leftarrow>es. contribution s e k)\<rparr>) [0 ..< 1440])"
    using chartData_valid [OF assms] by blast
  let ?data = "map (\<lambda>k. \<lparr>sample.time = Num (wrap24 (s + real k / 60)),
                            caffeine = Num (\<Sum>e\<leftarrow>es. contribution s e k)\<rparr>) [0 ..< 1440]"
  have "sample.time (?data ! k) = Num (wrap24 (s + real k / 60))
      \<and> s \<le> s + real k / 60 \<and> s + real k / 60 < s + 24
      \<and> 0 \<le> wrap24 (s + real k / 60) \<and> wrap24 (s + real k / 60) < 24" if "k < 1440" for k
    using that s(4,5) by (simp add: wrap24_def del: upt_Suc)
  moreover have "length ?data = 1440" by simp
  ultimately show ?thesis using s(1,2,3) cd by blast
qed

theorem chartData_window_witness:
  "startTime [\<lparr>intake.time = Num 22, amount = Num 100\<rparr>, \<lparr>intake.time = Num 6, amount = Num 50\<rparr>]
     = Inr (Num 6)
   \<and> time_at (chartData [\<lparr>intake.time = Num 22, amount = Num 100\<rparr>,
                          \<lparr>intake.time = Num 6, amount = Num 50\<rparr>]) 0 = Some (Num 6)
   \<and> time_at (chartData [\<lparr>intake.time = Num 22, amount = Num 100\<rparr>,
                          \<lparr>intake.time = Num 6, amount = Num 50\<rparr>]) 1140 = Some (Num 1)"
proof -
  let ?es = "[\<lparr>intake.time = Num 22, amount = Num 100\<rparr>, \<lparr>intake.time = Num 6, amount = Num 50\<rparr>]"
  have "\<forall>e \<in> set ?es. valid_intake e" and "?es \<noteq> []"
    by (simp_all add: valid_intake_def)
  from chartData_window [OF this]
  obtain s data where s: "startTime ?es = Inr (Num s)" "s \<in> time_val ` set ?es"
      "\<forall>e \<in> set ?es. s \<le> time_val e"
    and data: "chartData ?es = Inr data" "length data = 1440"
      "\<forall>k < 1440. sample.time (data ! k) = Num (wrap24 (s + real k / 60))
                 \<and> s \<le> s + real k / 60 \<and> s + real k / 60 < s + 24
                 \<and> 0 \<le> wrap24 (s + real k / 60) \<and> wrap24 (s + real k / 60) < 24"
    by blast
  have "s = 6" using s(2,3) by (auto simp: time_val_def)
  moreover have "sample.time (data ! 0) = Num (wrap24 (s + real 0 / 60))"
    and "sample.time (data ! 1140) = Num (wrap24 (s + real 1140 / 60))"
    using data(3) by simp_all
  ultimately show ?thesis
    using s(1) data(1,2) by (simp add: time_at_def wrap24_def)
qed

lemma contribution_pos: "valid_intake e \<Longrightarrow> 0 < contribution s e k"
  by (simp add: contribution_def valid_intakeD)

lemma decay_term_valid:
  assumes "valid_intake e" and "0 \<le> s" and "s \<le> time_val e"
  shows "decay_term e (timeSinceIntake (intakeMinute (Num s) e) k) = Num (contribution s e k)"
  using intakeMinute_valid [OF assms]
  by (simp add: timeSinceIntake_valid decay_term_def CAFFEINE_HALF_LIFE_def
      contribution_def valid_intakeD [OF assms(1)])

lemma foldr_js_add_Num:
  "\<forall>e \<in> set es. f e = Num (g e) \<Longrightarrow>
   foldr js_add (map f es) (Num 0) = Num (\<Sum>e\<leftarrow>es. g e)"
  by (induction es) simp_all

text \<open>
  C7. For a list of valid intakes that is not empty, at each of the 1440 steps and for
  each intake: the minute of the intake in the window is a whole number \<open>m\<close> of at most
  1440, the time since the intake is \<open>((k + 1440 - m) mod 1440) / 60\<close>, the guard of the
  inner loop holds, and the term of the intake is a positive number. The level of the
  sample is the sum of the terms of all the intakes: none is skipped.
\<close>

theorem chartData_sum_exhaustive:
  assumes "\<forall>e \<in> set es. valid_intake e" and "es \<noteq> []"
  shows "\<exists>st. startTime es = Inr st \<and>
           (\<forall>k < 1440.
              (\<forall>e \<in> set es. \<exists>m c.
                 intakeMinute st e = Num (real m) \<and> m \<le> 1440
                 \<and> timeSinceIntake (intakeMinute st e) k = Num (real ((k + 1440 - m) mod 1440) / 60)
                 \<and> js_ge (timeSinceIntake (intakeMinute st e) k) (Num 0)
                 \<and> decay_term e (timeSinceIntake (intakeMinute st e) k) = Num c \<and> 0 < c)
              \<and> level_at (chartData es) k =
                  Some (foldr js_add
                          (map (\<lambda>e. decay_term e (timeSinceIntake (intakeMinute st e) k)) es)
                          (Num 0)))"
proof -
  obtain s where s: "startTime es = Inr (Num s)" "\<forall>e \<in> set es. s \<le> time_val e" "0 \<le> s"
    and cd: "chartData es =
           Inr (map (\<lambda>k. \<lparr>sample.time = Num (wrap24 (s + real k / 60)),
                            caffeine = Num (\<Sum>e\<leftarrow>es. contribution s e k)\<rparr>) [0 ..< 1440])"
    using chartData_valid [OF assms] by blast
  have each: "\<exists>m c. intakeMinute (Num s) e = Num (real m) \<and> m \<le> 1440
        \<and> timeSinceIntake (intakeMinute (Num s) e) k = Num (real ((k + 1440 - m) mod 1440) / 60)
        \<and> js_ge (timeSinceIntake (intakeMinute (Num s) e) k) (Num 0)
        \<and> decay_term e (timeSinceIntake (intakeMinute (Num s) e) k) = Num c \<and> 0 < c"
    if "e \<in> set es" for e k
  proof -
    have v: "valid_intake e" and le: "s \<le> time_val e" using that assms(1) s(2) by auto
    note im = intakeMinute_valid [OF v s(3) le]
    have tsi: "timeSinceIntake (intakeMinute (Num s) e) k
        = Num (real ((k + 1440 - minute_of s e) mod 1440) / 60)"
      using im by (simp add: timeSinceIntake_valid elapsed_def)
    then have "js_ge (timeSinceIntake (intakeMinute (Num s) e) k) (Num 0)" by simp
    with im tsi decay_term_valid [OF v s(3) le, of k] contribution_pos [OF v, of s k]
    show ?thesis by blast
  qed
  have "level_at (chartData es) k =
      Some (foldr js_add
              (map (\<lambda>e. decay_term e (timeSinceIntake (intakeMinute (Num s) e) k)) es) (Num 0))"
    if "k < 1440" for k
  proof -
    have "\<forall>e \<in> set es. decay_term e (timeSinceIntake (intakeMinute (Num s) e) k)
        = Num (contribution s e k)"
      using assms(1) s(2,3) by (simp add: decay_term_valid)
    then have "foldr js_add
        (map (\<lambda>e. decay_term e (timeSinceIntake (intakeMinute (Num s) e) k)) es) (Num 0)
        = Num (\<Sum>e\<leftarrow>es. contribution s e k)"
      by (rule foldr_js_add_Num)
    then show ?thesis
      using that by (simp add: cd level_at_def del: upt_Suc)
  qed
  with each s(1) show ?thesis by blast
qed

theorem chartData_sum_exhaustive_witness:
  "startTime [\<lparr>intake.time = Num 6, amount = Num 100\<rparr>, \<lparr>intake.time = Num 1, amount = Num 80\<rparr>]
     = Inr (Num 1)
   \<and> level_at (chartData [\<lparr>intake.time = Num 6, amount = Num 100\<rparr>,
                           \<lparr>intake.time = Num 1, amount = Num 80\<rparr>]) 300 = Some (Num 140)"
proof -
  let ?es = "[\<lparr>intake.time = Num 6, amount = Num 100\<rparr>, \<lparr>intake.time = Num 1, amount = Num 80\<rparr>]"
  have start: "startTime ?es = Inr (Num 1)"
    by (simp add: startTime_def sort_intakes_def not_after_def compareFn_def)
  have "\<forall>e \<in> set ?es. valid_intake e" and "?es \<noteq> []"
    by (simp_all add: valid_intake_def)
  from chartData_sum_exhaustive [OF this] start
  have "level_at (chartData ?es) 300 =
      Some (foldr js_add
              (map (\<lambda>e. decay_term e (timeSinceIntake (intakeMinute (Num 1) e) 300)) ?es) (Num 0))"
    by auto
  then show ?thesis
    using start
    by (simp add: decay_term_def timeSinceIntake_def intakeMinute_def trunc_def
        TOTAL_DURATION_def CAFFEINE_HALF_LIFE_def)
qed

text \<open>
  C2, as amended. For two valid intakes, the level of the joint series at step \<open>k\<close> is the
  sum of the levels of the two single series, each read at the step shifted back by the
  minute \<open>m\<close> of its intake in the joint window, \<open>(k + 1440 - m) mod 1440\<close>. The window
  starts at the smaller of the two times, and one of the two minutes is 0 (the earlier
  intake starts the window), so its series is read at \<open>k\<close>.
\<close>

theorem chartData_superposition_shifted:
  assumes "valid_intake e1" and "valid_intake e2"
  shows "\<exists>st m1 m2. startTime [e1, e2] = Inr st
           \<and> st = Num (min (time_val e1) (time_val e2))
           \<and> intakeMinute st e1 = Num (real m1) \<and> intakeMinute st e2 = Num (real m2)
           \<and> m1 \<le> 1440 \<and> m2 \<le> 1440 \<and> (m1 = 0 \<or> m2 = 0)
           \<and> (\<forall>k < 1440. \<exists>l1 l2.
                 level_at (chartData [e1]) ((k + 1440 - m1) mod 1440) = Some l1
                 \<and> level_at (chartData [e2]) ((k + 1440 - m2) mod 1440) = Some l2
                 \<and> level_at (chartData [e1, e2]) k = Some (js_add l1 l2))"
proof -
  have valid: "\<forall>e \<in> set [e1, e2]. valid_intake e" using assms by simp
  obtain s where s: "startTime [e1, e2] = Inr (Num s)" "s \<in> time_val ` set [e1, e2]"
      "\<forall>e \<in> set [e1, e2]. s \<le> time_val e" "0 \<le> s"
    and cd: "chartData [e1, e2] =
           Inr (map (\<lambda>k. \<lparr>sample.time = Num (wrap24 (s + real k / 60)),
                            caffeine = Num (\<Sum>e\<leftarrow>[e1, e2]. contribution s e k)\<rparr>) [0 ..< 1440])"
  proof (rule chartData_valid [OF valid])
    show "[e1, e2] \<noteq> []" by simp
  qed (rule that)
  have le: "s \<le> time_val e1" "s \<le> time_val e2" using s(3) by simp_all
  note im1 = intakeMinute_valid [OF assms(1) s(4) le(1)]
  note im2 = intakeMinute_valid [OF assms(2) s(4) le(2)]
  have zero: "minute_of s e1 = 0 \<or> minute_of s e2 = 0"
    using s(2) by (auto simp: minute_of_def)
  have single: "level_at (chartData [e]) (elapsed (minute_of s e) k) = Some (Num (contribution s e k))"
    if "valid_intake e" for e k
  proof -
    have "elapsed (minute_of s e) k < 1440" by (simp add: elapsed_def)
    then show ?thesis
      by (simp add: chartData_single [OF that] level_at_def contribution_def del: upt_Suc)
  qed
  have "\<exists>l1 l2.
      level_at (chartData [e1]) ((k + 1440 - minute_of s e1) mod 1440) = Some l1
      \<and> level_at (chartData [e2]) ((k + 1440 - minute_of s e2) mod 1440) = Some l2
      \<and> level_at (chartData [e1, e2]) k = Some (js_add l1 l2)" if "k < 1440" for k
  proof -
    have "level_at (chartData [e1, e2]) k
        = Some (js_add (Num (contribution s e1 k)) (Num (contribution s e2 k)))"
      using that by (simp add: cd level_at_def del: upt_Suc)
    with single [OF assms(1), of k] single [OF assms(2), of k] show ?thesis
      unfolding elapsed_def by simp
  qed
  then have shifted: "\<forall>k < 1440. \<exists>l1 l2.
                 level_at (chartData [e1]) ((k + 1440 - minute_of s e1) mod 1440) = Some l1
                 \<and> level_at (chartData [e2]) ((k + 1440 - minute_of s e2) mod 1440) = Some l2
                 \<and> level_at (chartData [e1, e2]) k = Some (js_add l1 l2)"
    by (intro allI impI)
  have smin: "Num s = Num (min (time_val e1) (time_val e2))"
    using s(2) le by auto
  have "startTime [e1, e2] = Inr (Num s)
           \<and> Num s = Num (min (time_val e1) (time_val e2))
           \<and> intakeMinute (Num s) e1 = Num (real (minute_of s e1))
           \<and> intakeMinute (Num s) e2 = Num (real (minute_of s e2))
           \<and> minute_of s e1 \<le> 1440 \<and> minute_of s e2 \<le> 1440
           \<and> (minute_of s e1 = 0 \<or> minute_of s e2 = 0)
           \<and> (\<forall>k < 1440. \<exists>l1 l2.
                 level_at (chartData [e1]) ((k + 1440 - minute_of s e1) mod 1440) = Some l1
                 \<and> level_at (chartData [e2]) ((k + 1440 - minute_of s e2) mod 1440) = Some l2
                 \<and> level_at (chartData [e1, e2]) k = Some (js_add l1 l2))"
    using s(1) smin im1 im2 zero shifted by (intro conjI)
  then show ?thesis by (intro exI)
qed

theorem chartData_superposition_shifted_witness:
  "level_at (chartData [\<lparr>intake.time = Num 0, amount = Num 100\<rparr>]) 300 = Some (Num 50)
   \<and> level_at (chartData [\<lparr>intake.time = Num 5, amount = Num 100\<rparr>]) 0 = Some (Num 100)
   \<and> level_at (chartData [\<lparr>intake.time = Num 0, amount = Num 100\<rparr>,
                           \<lparr>intake.time = Num 5, amount = Num 100\<rparr>]) 300 = Some (Num 150)"
proof -
  define a where "a = \<lparr>intake.time = Num 0, amount = Num 100\<rparr>"
  define b where "b = \<lparr>intake.time = Num 5, amount = Num 100\<rparr>"
  have va: "valid_intake a" and vb: "valid_intake b"
    by (simp_all add: valid_intake_def a_def b_def)
  have vals: "time_val a = 0" "time_val b = 5" "amount_val a = 100" "amount_val b = 100"
    by (simp_all add: time_val_def amount_val_def a_def b_def)
  have start: "startTime [a, b] = Inr (Num 0)"
    by (simp add: startTime_def sort_intakes_def not_after_def compareFn_def a_def b_def)
  have ima: "intakeMinute (Num 0) a = Num 0" and imb: "intakeMinute (Num 0) b = Num 300"
    by (simp_all add: intakeMinute_def trunc_def a_def b_def)
  have la: "level_at (chartData [a]) 300 = Some (Num 50)"
    and lb: "level_at (chartData [b]) 0 = Some (Num 100)"
    by (simp_all add: chartData_single [OF va] chartData_single [OF vb] level_at_def
        vals del: upt_Suc)
  from chartData_superposition_shifted [OF va vb]
  obtain st m1 m2 where st: "startTime [a, b] = Inr st"
    and m: "intakeMinute st a = Num (real m1)" "intakeMinute st b = Num (real m2)"
    and sum: "\<forall>k < 1440. \<exists>l1 l2.
                 level_at (chartData [a]) ((k + 1440 - m1) mod 1440) = Some l1
                 \<and> level_at (chartData [b]) ((k + 1440 - m2) mod 1440) = Some l2
                 \<and> level_at (chartData [a, b]) k = Some (js_add l1 l2)"
    by blast
  have "st = Num 0" using st start by simp
  with m ima imb have "m1 = 0" and "m2 = 300" by simp_all
  with sum [rule_format, of 300] la lb
  have "level_at (chartData [a, b]) 300 = Some (Num 150)" by simp
  with la lb show ?thesis
    unfolding a_def b_def by simp
qed

text \<open>
  C2, as stated, fails: for intakes of 100 at the times 0 and 4, each single series has
  level 100 at step 0, and the joint series has level 106.25 there, not 200. At step 0 of
  the joint window the intake of time 4 is 20 hours old, not fresh.
\<close>

theorem chartData_superposition_counterexample:
  "level_at (chartData [\<lparr>intake.time = Num 0, amount = Num 100\<rparr>]) 0 = Some (Num 100)
   \<and> level_at (chartData [\<lparr>intake.time = Num 4, amount = Num 100\<rparr>]) 0 = Some (Num 100)
   \<and> level_at (chartData [\<lparr>intake.time = Num 0, amount = Num 100\<rparr>,
                           \<lparr>intake.time = Num 4, amount = Num 100\<rparr>]) 0 = Some (Num 106.25)
   \<and> level_at (chartData [\<lparr>intake.time = Num 0, amount = Num 100\<rparr>,
                           \<lparr>intake.time = Num 4, amount = Num 100\<rparr>]) 0
       \<noteq> Some (js_add (Num 100) (Num 100))"
proof -
  define a where "a = \<lparr>intake.time = Num 0, amount = Num 100\<rparr>"
  define b where "b = \<lparr>intake.time = Num 4, amount = Num 100\<rparr>"
  have va: "valid_intake a" and vb: "valid_intake b"
    by (simp_all add: valid_intake_def a_def b_def)
  have vals: "time_val a = 0" "time_val b = 4" "amount_val a = 100" "amount_val b = 100"
    by (simp_all add: time_val_def amount_val_def a_def b_def)
  have valid: "\<forall>e \<in> set [a, b]. valid_intake e" and ne: "[a, b] \<noteq> []"
    using va vb by simp_all
  have both: "level_at (chartData [a, b]) 0 = Some (Num 106.25)"
  proof (rule chartData_valid [OF valid ne])
    fix s
    assume s: "s \<in> time_val ` set [a, b]" "\<forall>e \<in> set [a, b]. s \<le> time_val e"
      and cd: "chartData [a, b] =
           Inr (map (\<lambda>k. \<lparr>sample.time = Num (wrap24 (s + real k / 60)),
                            caffeine = Num (\<Sum>e\<leftarrow>[a, b]. contribution s e k)\<rparr>) [0 ..< 1440])"
    have s0: "s = 0" using s by (auto simp: vals)
    have "contribution 0 a 0 = 100" and "contribution 0 b 0 = 25 / 4"
      by (simp_all add: contribution_def minute_of_def elapsed_def vals powr_numeral
          power4_eq_xxxx)
    then show ?thesis
      by (simp add: cd s0 level_at_def del: upt_Suc)
  qed
  have "level_at (chartData [a]) 0 = Some (Num 100)"
    and "level_at (chartData [b]) 0 = Some (Num 100)"
    by (simp_all add: chartData_single [OF va] chartData_single [OF vb] level_at_def
        vals del: upt_Suc)
  with both show ?thesis
    unfolding a_def b_def by simp
qed

end
